theory Spec2Isabelle
  imports Main "HOL-Library.AList" "HOL-Library.Sublist"
begin

section \<open>The data model of \<^verbatim>\<open>math_object.py\<close>\<close>

text \<open>
  Python objects have identity and are mutated in place, and the functions verified
  here depend on both (\<^verbatim>\<open>self is other\<close>, the match tag written into the
  \<^verbatim>\<open>info\<close> dictionary of a shared bound variable, the registries that return a
  cached instance). The embedding therefore keeps an explicit store: a reference is an
  index into the list of allocated objects, allocation appends to that list, and an
  \<^verbatim>\<open>info\<close> dictionary is an object of its own (several MathObjects may hold the
  same dictionary, as the results of \<^verbatim>\<open>unfold_implicit_definition_recursively\<close>
  do). A \<^verbatim>\<open>children\<close> list is held by value: none of the functions embedded here
  lets two objects share one list object.

  A Python \<^verbatim>\<open>str\<close> is embedded as the list of the bytes of its UTF-8 encoding;
  the operations used on names (\<^verbatim>\<open>==\<close>, \<^verbatim>\<open>in\<close>, \<^verbatim>\<open>endswith\<close> and the
  removal of an ASCII suffix) give the same result on bytes as on code points.
\<close>

type_synonym ref = nat

datatype pyval = PStr string | PInt int | PObj ref

type_synonym pydict = "(string \<times> pyval) list"

datatype error =
    RecursionError | AttributeError | KeyError | IndexError | ValueError | TypeError

datatype klass = MathObject_class | BoundVar_class

record math_object =
  klass :: klass
  node :: string
  info :: ref
  children :: "ref list"
  math_type_attr :: "ref option"
  parent :: "ref option"
  is_unnamed :: bool
  local_context :: "ref list"

text \<open>
  The class attributes of \<^verbatim>\<open>MathObject\<close> (the registries) together with the two
  stores. \<^verbatim>\<open>constants\<close> is keyed by \<^verbatim>\<open>info.get('name')\<close>, which may be
  \<^verbatim>\<open>None\<close>.
\<close>

record session =
  objs :: "math_object list"
  dicts :: "pydict list"
  Variables :: "(pyval \<times> ref) list"
  constants :: "(pyval option \<times> ref) list"
  number_sets :: "string list"
  bound_var_counter :: int
  definition_patterns :: "ref list"

subsection \<open>Names with non-ASCII characters\<close>

definition utf8_N :: string where "utf8_N = [CHR 0xE2, CHR 0x84, CHR 0x95]"
definition utf8_Z :: string where "utf8_Z = [CHR 0xE2, CHR 0x84, CHR 0xA4]"
definition utf8_Q :: string where "utf8_Q = [CHR 0xE2, CHR 0x84, CHR 0x9A]"
definition utf8_R :: string where "utf8_R = [CHR 0xE2, CHR 0x84, CHR 0x9D]"
definition utf8_forall :: string where "utf8_forall = [CHR 0xE2, CHR 0x88, CHR 0x80]"
definition utf8_exists :: string where "utf8_exists = [CHR 0xE2, CHR 0x88, CHR 0x83]"

definition NUMBER_SETS_LIST :: "string list" where
  "NUMBER_SETS_LIST = [utf8_N, utf8_Z, utf8_Q, utf8_R]"

subsection \<open>The module-level singletons\<close>

text \<open>
  \<^verbatim>\<open>NO_MATH_TYPE\<close>, \<^verbatim>\<open>NO_MORE_GOALS\<close>, \<^verbatim>\<open>CURRENT_GOAL_SOLVED\<close> and
  \<^verbatim>\<open>PROP\<close> are created, in this order, when the module is loaded; each gets a
  fresh empty \<^verbatim>\<open>info\<close> dictionary.
\<close>

definition NO_MATH_TYPE :: ref where "NO_MATH_TYPE = 0"
definition NO_MORE_GOALS :: ref where "NO_MORE_GOALS = 1"
definition CURRENT_GOAL_SOLVED :: ref where "CURRENT_GOAL_SOLVED = 2"
definition PROP_object :: ref where "PROP_object = 3"

definition plain_object :: "string \<Rightarrow> ref \<Rightarrow> ref list \<Rightarrow> ref option \<Rightarrow> math_object" where
  "plain_object nd i cs mt =
     \<lparr>klass = MathObject_class, node = nd, info = i, children = cs, math_type_attr = mt,
      parent = None, is_unnamed = False, local_context = []\<rparr>"

definition initial_session :: session where
  "initial_session =
     \<lparr>objs = [plain_object ''not provided'' 0 [] None,
              plain_object ''NO_MORE_GOAL'' 1 [] None,
              plain_object ''CURRENT_GOAL_SOLVED'' 2 [] None,
              plain_object ''PROP'' 3 [] None],
      dicts = [[], [], [], []],
      Variables = [], constants = [], number_sets = [], bound_var_counter = 0,
      definition_patterns = []\<rparr>"

subsection \<open>Attribute access\<close>

definition obj :: "session \<Rightarrow> ref \<Rightarrow> math_object" where
  "obj s p = objs s ! p"

definition info_dict :: "session \<Rightarrow> ref \<Rightarrow> pydict" where
  "info_dict s p = dicts s ! info (obj s p)"

text \<open>The property \<^verbatim>\<open>math_type\<close>: the sentinel stands for \<^verbatim>\<open>None\<close>.\<close>

definition math_type :: "session \<Rightarrow> ref \<Rightarrow> ref" where
  "math_type s p = (case math_type_attr (obj s p) of None \<Rightarrow> NO_MATH_TYPE | Some t \<Rightarrow> t)"

definition is_no_math_type :: "ref \<Rightarrow> bool" where
  "is_no_math_type p = (p = NO_MATH_TYPE)"

definition is_bound_var :: "session \<Rightarrow> ref \<Rightarrow> bool" where
  "is_bound_var s p = (klass (obj s p) = BoundVar_class)"

text \<open>Python's truth value of a dictionary entry that may be absent.\<close>

fun truthy :: "pyval option \<Rightarrow> bool" where
  "truthy None = False"
| "truthy (Some (PStr x)) = (x \<noteq> [])"
| "truthy (Some (PInt i)) = (i \<noteq> 0)"
| "truthy (Some (PObj p)) = True"

text \<open>
  \<^verbatim>\<open>name\<close> is \<^verbatim>\<open>self.info.get('name')\<close> in \<^verbatim>\<open>MathObject\<close> and is overridden
  by \<^verbatim>\<open>self.info['name']\<close> in \<^verbatim>\<open>BoundVar\<close>, which raises when the key is
  missing.
\<close>

definition name :: "session \<Rightarrow> ref \<Rightarrow> error + pyval option" where
  "name s p =
     (case klass (obj s p) of
        MathObject_class \<Rightarrow> Inr (map_of (info_dict s p) ''name'')
      | BoundVar_class \<Rightarrow>
          (case map_of (info_dict s p) ''name'' of
             None \<Rightarrow> Inl KeyError
           | Some v \<Rightarrow> Inr (Some v)))"

definition value_attr :: "session \<Rightarrow> ref \<Rightarrow> pyval option" where
  "value_attr s p = map_of (info_dict s p) ''value''"

definition display_name :: "session \<Rightarrow> ref \<Rightarrow> error + pyval" where
  "display_name s p =
     (case name s p of
        Inl e \<Rightarrow> Inl e
      | Inr n \<Rightarrow> Inr (if truthy n then the n else PStr ''*no_name*''))"

section \<open>The registry of number sets\<close>

text \<open>\<^verbatim>\<open>list.index\<close>; \<open>None\<close> stands for the \<^verbatim>\<open>ValueError\<close> of an absent item.\<close>

fun list_index :: "'a list \<Rightarrow> 'a \<Rightarrow> nat option" where
  "list_index [] x = None"
| "list_index (y # ys) x = (if y = x then Some 0 else map_option Suc (list_index ys x))"

text \<open>
  The \<^verbatim>\<open>while counter > 0\<close> loop of \<^verbatim>\<open>add_numbers_set\<close>, by recursion on
  \<^verbatim>\<open>counter\<close>. The list keeps its length and the loop starts at its last
  position, so both list accesses are in range.
\<close>

fun add_numbers_set_loop :: "nat \<Rightarrow> string \<Rightarrow> string list \<Rightarrow> error + string list" where
  "add_numbers_set_loop 0 nm ns = Inr ns"
| "add_numbers_set_loop (Suc k) nm ns =
     (let old_item = ns ! k in
      case list_index NUMBER_SETS_LIST nm of
        None \<Rightarrow> Inl ValueError
      | Some i \<Rightarrow>
          (case list_index NUMBER_SETS_LIST old_item of
             None \<Rightarrow> Inl ValueError
           | Some j \<Rightarrow>
               if i < j then add_numbers_set_loop k nm (ns[Suc k := old_item, k := nm])
               else Inr ns))"

definition add_numbers_set :: "string \<Rightarrow> session \<Rightarrow> error + session" where
  "add_numbers_set nm s =
     (if nm \<in> set NUMBER_SETS_LIST \<and> nm \<notin> set (number_sets s) then
        (let ns = number_sets s @ [nm]; counter = length ns - 1 in
         case add_numbers_set_loop counter nm ns of
           Inl e \<Rightarrow> Inl e
         | Inr ns' \<Rightarrow> Inr (s\<lparr>number_sets := ns'\<rparr>))
      else Inr s)"

text \<open>A sequence of calls, as issued one after the other by the construction of terms.\<close>

fun add_numbers_sets :: "string list \<Rightarrow> session \<Rightarrow> error + session" where
  "add_numbers_sets [] s = Inr s"
| "add_numbers_sets (nm # nms) s =
     (case add_numbers_set nm s of Inl e \<Rightarrow> Inl e | Inr s' \<Rightarrow> add_numbers_sets nms s')"

text \<open>
  Position of a name in the chain \<^verbatim>\<open>NUMBER_SETS_LIST\<close>, and the invariant of
  \<^verbatim>\<open>number_sets\<close>: its names are in the chain and stand in strictly increasing
  position.
\<close>

definition chain_pos :: "string \<Rightarrow> nat" where
  "chain_pos nm = (case list_index NUMBER_SETS_LIST nm of None \<Rightarrow> 0 | Some i \<Rightarrow> i)"

definition chain_ordered :: "string list \<Rightarrow> bool" where
  "chain_ordered ns = (sorted_wrt (\<lambda>a b. chain_pos a < chain_pos b) ns \<and> set ns \<subseteq> set NUMBER_SETS_LIST)"

section \<open>\<^verbatim>\<open>clear\<close>\<close>

definition clear :: "session \<Rightarrow> session" where
  "clear s = s\<lparr>Variables := [], number_sets := [], bound_var_counter := 0\<rparr>"

section \<open>\<^verbatim>\<open>descendant\<close>\<close>

text \<open>Indexing a Python list: a negative index counts from the end.\<close>

definition py_get :: "'a list \<Rightarrow> int \<Rightarrow> error + 'a" where
  "py_get xs i =
     (if 0 \<le> i \<and> i < int (length xs) then Inr (xs ! nat i)
      else if i < 0 \<and> - int (length xs) \<le> i then Inr (xs ! nat (int (length xs) + i))
      else Inl IndexError)"

text \<open>
  The argument \<^verbatim>\<open>line_of_descent\<close> is an \<^verbatim>\<open>int\<close> or a tuple or list of them.
  The result is a reference, or \<open>None\<close> for Python's \<^verbatim>\<open>None\<close>.
\<close>

datatype line_of_descent = Index int | Path "int list"

fun descendant_path :: "session \<Rightarrow> ref \<Rightarrow> int list \<Rightarrow> error + ref option" where
  "descendant_path s p [] = Inl ValueError"
| "descendant_path s p (child_number # remaining) =
     (if child_number \<ge> int (length (children (obj s p))) then Inr None
      else case py_get (children (obj s p)) child_number of
             Inl e \<Rightarrow> Inl e
           | Inr child \<Rightarrow>
               if remaining = [] then Inr (Some child)
               else descendant_path s child remaining)"

fun descendant :: "session \<Rightarrow> ref \<Rightarrow> line_of_descent \<Rightarrow> error + ref option" where
  "descendant s p (Index i) =
     (case py_get (children (obj s p)) i of Inl e \<Rightarrow> Inl e | Inr c \<Rightarrow> Inr (Some c))"
| "descendant s p (Path l) = descendant_path s p l"

section \<open>Bound variables and their match tag\<close>

definition has_bound_var_nodes :: "string list" where
  "has_bound_var_nodes =
     [''QUANT_'' @ utf8_forall, ''QUANT_'' @ utf8_exists, ''QUANT_'' @ utf8_exists @ ''!'',
      ''SET_INTENSION'', ''LAMBDA'', ''LOCAL_CONSTANT'']"

definition has_bound_var :: "session \<Rightarrow> ref \<Rightarrow> bool" where
  "has_bound_var s p =
     (node (obj s p) \<in> set has_bound_var_nodes
      \<and> length (children (obj s p)) = 3
      \<and> is_bound_var s (children (obj s p) ! 1))"

text \<open>\<^verbatim>\<open>self.info[key] = v\<close>: the dictionary held by the object is updated in place.\<close>

definition set_info :: "session \<Rightarrow> ref \<Rightarrow> string \<Rightarrow> pyval \<Rightarrow> session" where
  "set_info s p key v =
     s\<lparr>dicts := (dicts s)[info (obj s p) := AList.update key v (info_dict s p)]\<rparr>"

definition bound_var_nb :: "session \<Rightarrow> ref \<Rightarrow> pyval option" where
  "bound_var_nb s p = map_of (info_dict s p) ''bound_var_nb''"

definition mark_identical_bound_vars :: "session \<Rightarrow> ref \<Rightarrow> ref \<Rightarrow> session" where
  "mark_identical_bound_vars s self other =
     (let s1 = s\<lparr>bound_var_counter := bound_var_counter s + 1\<rparr>;
          s2 = set_info s1 self ''bound_var_nb'' (PInt (bound_var_counter s1))
      in set_info s2 other ''bound_var_nb'' (PInt (bound_var_counter s2)))"

text \<open>
  \<^verbatim>\<open>unmark_bound_var\<close> is a method of \<^verbatim>\<open>BoundVar\<close> only: on an instance of
  \<^verbatim>\<open>MathObject\<close> itself the attribute lookup fails.
\<close>

definition unmark_bound_var :: "session \<Rightarrow> ref \<Rightarrow> error + session" where
  "unmark_bound_var s p =
     (case klass (obj s p) of
        BoundVar_class \<Rightarrow> Inr (set_info s p ''bound_var_nb'' (PInt (- 1)))
      | MathObject_class \<Rightarrow> Inl AttributeError)"

section \<open>Equality\<close>

text \<open>\<^verbatim>\<open>BoundVar.__eq__\<close>. It reads the store and writes nothing.\<close>

definition BoundVar_eq :: "session \<Rightarrow> ref \<Rightarrow> ref \<Rightarrow> error + bool" where
  "BoundVar_eq s self other =
     (if self = other then Inr True
      else if klass (obj s other) = BoundVar_class then
        (if bound_var_nb s self \<noteq> Some (PInt (- 1)) then
           Inr (bound_var_nb s self = bound_var_nb s other)
         else
           (case name s self of
              Inl e \<Rightarrow> Inl e
            | Inr n1 \<Rightarrow> (case name s other of Inl e \<Rightarrow> Inl e | Inr n2 \<Rightarrow> Inr (n1 = n2))))
      else Inr False)"

text \<open>
  The operator \<^verbatim>\<open>a != b\<close> on two objects. Neither class defines \<^verbatim>\<open>__ne__\<close>, so
  the inherited one calls \<^verbatim>\<open>__eq__\<close> and negates. The interpreter asks the right
  operand first when its class is a proper subclass of the class of the left operand,
  that is when \<^verbatim>\<open>a\<close> is a plain \<^verbatim>\<open>MathObject\<close> and \<^verbatim>\<open>b\<close> a \<^verbatim>\<open>BoundVar\<close>;
  otherwise the class of the left operand decides. \<^verbatim>\<open>BoundVar.__eq__\<close> never returns
  \<^verbatim>\<open>NotImplemented\<close>, so no second method is tried. The parameter \<open>meq\<close> is
  \<^verbatim>\<open>MathObject.__eq__\<close> at the remaining recursion depth.
\<close>

definition py_ne ::
  "(session \<Rightarrow> ref \<Rightarrow> ref \<Rightarrow> error + bool \<times> session)
    \<Rightarrow> session \<Rightarrow> ref \<Rightarrow> ref \<Rightarrow> error + bool \<times> session" where
  "py_ne meq s a b =
     (if klass (obj s a) = MathObject_class \<and> klass (obj s b) = BoundVar_class then
        (case BoundVar_eq s b a of Inl e \<Rightarrow> Inl e | Inr r \<Rightarrow> Inr (\<not> r, s))
      else if klass (obj s a) = BoundVar_class then
        (case BoundVar_eq s a b of Inl e \<Rightarrow> Inl e | Inr r \<Rightarrow> Inr (\<not> r, s))
      else
        (case meq s a b of Inl e \<Rightarrow> Inl e | Inr (r, s') \<Rightarrow> Inr (\<not> r, s')))"

text \<open>
  The loop over \<^verbatim>\<open>zip(self.children, other.children)\<close>: every pair is compared,
  also after a first difference.
\<close>

fun compare_children ::
  "(session \<Rightarrow> ref \<Rightarrow> ref \<Rightarrow> error + bool \<times> session)
    \<Rightarrow> session \<Rightarrow> (ref \<times> ref) list \<Rightarrow> bool \<Rightarrow> error + bool \<times> session" where
  "compare_children ne s [] equal = Inr (equal, s)"
| "compare_children ne s ((child0, child1) # rest) equal =
     (case ne s child0 child1 of
        Inl e \<Rightarrow> Inl e
      | Inr (differ, s') \<Rightarrow> compare_children ne s' rest (if differ then False else equal))"

text \<open>
  \<^verbatim>\<open>MathObject.__eq__\<close>, called on two objects of the store. The first argument is
  the depth of recursion that the interpreter still allows: where Python raises
  \<^verbatim>\<open>RecursionError\<close> on a cyclic structure, the model returns that error. Values
  stored under \<^verbatim>\<open>'name'\<close> and \<^verbatim>\<open>'value'\<close> are the parser's strings and numbers
  and are compared as such.
\<close>

primrec MathObject_eq :: "nat \<Rightarrow> session \<Rightarrow> ref \<Rightarrow> ref \<Rightarrow> error + bool \<times> session" where
  "MathObject_eq 0 s self other = Inl RecursionError"
| "MathObject_eq (Suc depth) s self other =
     (if self = other then Inr (True, s)
      else if is_no_math_type self \<or> is_no_math_type other then Inr (True, s)
      else
        (case name s self of
           Inl e \<Rightarrow> Inl e
         | Inr name1 \<Rightarrow>
        (case name s other of
           Inl e \<Rightarrow> Inl e
         | Inr name2 \<Rightarrow>
        if (node (obj s self), is_bound_var s self, name1, value_attr s self)
            \<noteq> (node (obj s other), is_bound_var s other, name2, value_attr s other)
        then Inr (False, s)
        else
        (case py_ne (MathObject_eq depth) s (math_type s self) (math_type s other) of
           Inl e \<Rightarrow> Inl e
         | Inr (differ, s1) \<Rightarrow>
        if differ then Inr (False, s1)
        else if length (children (obj s1 self)) \<noteq> length (children (obj s1 other))
        then Inr (False, s1)
        else
          (let marked = has_bound_var s1 self;
               s2 = (if marked then
                       mark_identical_bound_vars s1 (children (obj s1 self) ! 1)
                         (children (obj s1 other) ! 1)
                     else s1)
           in
           case compare_children (py_ne (MathObject_eq depth)) s2
                  (zip (children (obj s2 self)) (children (obj s2 other))) True of
             Inl e \<Rightarrow> Inl e
           | Inr (equal, s3) \<Rightarrow>
               if marked then
                 (case unmark_bound_var s3 (children (obj s1 self) ! 1) of
                    Inl e \<Rightarrow> Inl e
                  | Inr s4 \<Rightarrow>
                      (case unmark_bound_var s4 (children (obj s1 other) ! 1) of
                         Inl e \<Rightarrow> Inl e
                       | Inr s5 \<Rightarrow> Inr (equal, s5)))
               else Inr (equal, s3))))))"

section \<open>\<^verbatim>\<open>contains\<close>\<close>

text \<open>
  The children are visited twice: once by the loop that prints a debugging line for
  every child with a non-zero count, once by the list that is summed. Both passes call
  \<^verbatim>\<open>contains\<close>, and so both advance the counter of match tags.
\<close>

fun contains_children ::
  "(session \<Rightarrow> ref \<Rightarrow> error + int \<times> session)
    \<Rightarrow> session \<Rightarrow> ref list \<Rightarrow> error + int list \<times> session" where
  "contains_children cnt s [] = Inr ([], s)"
| "contains_children cnt s (child # rest) =
     (case cnt s child of
        Inl e \<Rightarrow> Inl e
      | Inr (k, s') \<Rightarrow>
          (case contains_children cnt s' rest of
             Inl e \<Rightarrow> Inl e
           | Inr (ks, s'') \<Rightarrow> Inr (k # ks, s'')))"

primrec contains :: "nat \<Rightarrow> session \<Rightarrow> ref \<Rightarrow> ref \<Rightarrow> error + int \<times> session" where
  "contains 0 s self other = Inl RecursionError"
| "contains (Suc depth) s self other =
     (if self = NO_MATH_TYPE then Inr (0, s)
      else
        (case MathObject_eq depth s self other of
           Inl e \<Rightarrow> Inl e
         | Inr (equal, s1) \<Rightarrow>
             if equal then Inr (1, s1)
             else
               (case contains_children (\<lambda>t child. contains depth t child other) s1
                       (children (obj s1 self)) of
                  Inl e \<Rightarrow> Inl e
                | Inr (tests, s2) \<Rightarrow>
                    (case contains_children (\<lambda>t child. contains depth t child other) s2
                            (children (obj s2 self)) of
                       Inl e \<Rightarrow> Inl e
                     | Inr (counts, s3) \<Rightarrow> Inr (sum_list counts, s3)))))"

section \<open>Sessions used as concrete inputs\<close>

text \<open>
  A session with two universally quantified propositions over the same type and body
  and with distinct bound variables, \<open>\<forall>x : X, P\<close> and \<open>\<forall>y : X, P\<close>, as
  \<^verbatim>\<open>MathObject.__init__\<close> and \<^verbatim>\<open>BoundVar.__init__\<close> leave them; and a third node
  of the same kind whose middle child is a plain \<^verbatim>\<open>MathObject\<close>.
\<close>

definition bound_var_object :: "ref \<Rightarrow> ref option \<Rightarrow> ref option \<Rightarrow> math_object" where
  "bound_var_object i mt par =
     \<lparr>klass = BoundVar_class, node = ''LOCAL_CONSTANT'', info = i, children = [],
      math_type_attr = mt, parent = par, is_unnamed = True, local_context = []\<rparr>"

definition unnamed_info :: "string \<Rightarrow> pydict" where
  "unnamed_info lean_name =
     [(''name'', PStr ''NO NAME''), (''lean_name'', PStr lean_name), (''bound_var_nb'', PInt (- 1))]"

definition binder_session :: session where
  "binder_session =
     initial_session
       \<lparr>objs := objs initial_session @
          [plain_object ''LOCAL_CONSTANT'' 4 [] None,
           bound_var_object 5 (Some 4) (Some 7),
           plain_object ''PROP_FALSE'' 6 [] None,
           plain_object (''QUANT_'' @ utf8_forall) 7 [4, 5, 6] None,
           bound_var_object 8 (Some 4) (Some 9),
           plain_object (''QUANT_'' @ utf8_forall) 9 [4, 8, 6] None,
           plain_object ''LOCAL_CONSTANT'' 10 [] (Some 4),
           plain_object (''QUANT_'' @ utf8_forall) 11 [4, 10, 6] None],
        dicts := dicts initial_session @
          [[(''name'', PStr ''X'')], unnamed_info ''x'', [], [],
           unnamed_info ''y'', [], [(''name'', PStr ''z'')], []]\<rparr>"

section \<open>What an equality test may change\<close>

text \<open>
  \<open>only_tags_reset s s'\<close>: the session \<open>s'\<close> has the objects and the registries of
  \<open>s\<close> (the counter of match tags apart), and each \<^verbatim>\<open>info\<close> dictionary of \<open>s'\<close> is
  the one of \<open>s\<close>, either as it was or with \<^verbatim>\<open>'bound_var_nb'\<close> set to the default
  \<open>-1\<close>. No tag written between \<open>s\<close> and \<open>s'\<close> is left in \<open>s'\<close>.
\<close>

definition only_tags_reset :: "session \<Rightarrow> session \<Rightarrow> bool" where
  "only_tags_reset s s' =
     (objs s' = objs s \<and> Variables s' = Variables s \<and> constants s' = constants s
      \<and> number_sets s' = number_sets s \<and> definition_patterns s' = definition_patterns s
      \<and> length (dicts s') = length (dicts s)
      \<and> (\<forall>d < length (dicts s).
            dicts s' ! d = dicts s ! d
            \<or> dicts s' ! d = AList.update ''bound_var_nb'' (PInt (- 1)) (dicts s ! d)))"

text \<open>
  The same session at a moment when \<open>x\<close> carries the match tag 1 and \<open>y\<close> carries
  none, as inside a comparison of \<open>\<forall>x : X, P\<close> with another proposition.
\<close>

definition tagged_session :: session where
  "tagged_session = set_info binder_session 5 ''bound_var_nb'' (PInt 1)"

section \<open>Verification: the registry of number sets\<close>

lemma list_index_Some_iff: "x \<in> set xs \<Longrightarrow> \<exists>i. list_index xs x = Some i"
  by (induction xs) auto

lemma list_index_nth: "list_index xs x = Some i \<Longrightarrow> i < length xs \<and> xs ! i = x"
  by (induction xs arbitrary: i) (auto split: if_splits)

lemma list_index_inj: "list_index xs x = Some i \<Longrightarrow> list_index xs y = Some i \<Longrightarrow> x = y"
  using list_index_nth by metis

lemma chain_pos_inj: "x \<in> set NUMBER_SETS_LIST \<Longrightarrow> y \<in> set NUMBER_SETS_LIST \<Longrightarrow> chain_pos x = chain_pos y \<Longrightarrow> x = y"
  unfolding chain_pos_def
  by (metis list_index_Some_iff list_index_inj option.simps(5))

lemma chain_index: "x \<in> set NUMBER_SETS_LIST \<Longrightarrow> list_index NUMBER_SETS_LIST x = Some (chain_pos x)"
  unfolding chain_pos_def using list_index_Some_iff[of x NUMBER_SETS_LIST] by auto

lemma loop_inserts:
  assumes "nm \<in> set NUMBER_SETS_LIST" "nm \<notin> set xs"
    and "chain_ordered xs"
  shows "add_numbers_set_loop (length xs) nm (xs @ nm # ys) =
    Inr (filter (\<lambda>x. chain_pos x < chain_pos nm) xs @ nm # filter (\<lambda>x. \<not> chain_pos x < chain_pos nm) xs @ ys)"
  using assms
proof (induction xs arbitrary: ys rule: rev_induct)
  case Nil
  then show ?case by simp
next
  case (snoc x xs)
  have xin: "x \<in> set NUMBER_SETS_LIST" and ord: "chain_ordered xs"
    and below: "\<forall>y\<in>set xs. chain_pos y < chain_pos x"
    using snoc.prems(3) by (auto simp: chain_ordered_def sorted_wrt_append)
  have ne: "x \<noteq> nm" "nm \<notin> set xs" using snoc.prems(2) by auto
  have old: "(xs @ [x] @ nm # ys) ! length xs = x" by (simp add: nth_append)
  show ?case
  proof (cases "chain_pos nm < chain_pos x")
    case True
    have upd: "(xs @ x # nm # ys)[Suc (length xs) := x, length xs := nm] = xs @ nm # (x # ys)"
      by (simp add: list_update_append)
    have "add_numbers_set_loop (length (xs @ [x])) nm ((xs @ [x]) @ nm # ys)
        = add_numbers_set_loop (length xs) nm (xs @ nm # (x # ys))"
      using True old upd chain_index[OF xin] chain_index[OF snoc.prems(1)] by (simp add: nth_append)
    also have "\<dots> = Inr (filter (\<lambda>x. chain_pos x < chain_pos nm) xs @ nm # filter (\<lambda>x. \<not> chain_pos x < chain_pos nm) xs @ x # ys)"
      using snoc.IH[OF snoc.prems(1) ne(2) ord] by simp
    finally show ?thesis using True by simp
  next
    case False
    have "chain_pos x \<noteq> chain_pos nm" using chain_pos_inj[OF xin snoc.prems(1)] ne by auto
    with False have lt: "chain_pos x < chain_pos nm" by simp
    have all: "\<forall>y\<in>set xs. chain_pos y < chain_pos nm" using below lt by auto
    have "add_numbers_set_loop (length (xs @ [x])) nm ((xs @ [x]) @ nm # ys) = Inr ((xs @ [x]) @ nm # ys)"
      using False old chain_index[OF xin] chain_index[OF snoc.prems(1)] by (simp add: nth_append)
    then show ?thesis using lt all by simp
  qed
qed


lemma chain_ordered_insert:
  assumes "nm \<in> set NUMBER_SETS_LIST" "nm \<notin> set xs" "chain_ordered xs"
  shows "chain_ordered (filter (\<lambda>x. chain_pos x < chain_pos nm) xs @ nm # filter (\<lambda>x. \<not> chain_pos x < chain_pos nm) xs)"
proof -
  have gt: "chain_pos nm < chain_pos x" if "x \<in> set xs" "\<not> chain_pos x < chain_pos nm" for x
  proof -
    have "x \<in> set NUMBER_SETS_LIST" "x \<noteq> nm" using that assms by (auto simp: chain_ordered_def)
    then have "chain_pos x \<noteq> chain_pos nm" using chain_pos_inj assms(1) by blast
    with that show ?thesis by simp
  qed
  have s: "sorted_wrt (\<lambda>a b. chain_pos a < chain_pos b) xs" using assms(3) by (simp add: chain_ordered_def)
  have "sorted_wrt (\<lambda>a b. chain_pos a < chain_pos b)
     (filter (\<lambda>x. chain_pos x < chain_pos nm) xs @ nm # filter (\<lambda>x. \<not> chain_pos x < chain_pos nm) xs)"
    using gt sorted_wrt_filter[OF s] by (auto simp: sorted_wrt_append dest: less_trans)
  then show ?thesis using assms by (auto simp: chain_ordered_def)
qed

lemma add_numbers_set_ordered:
  assumes "chain_ordered (number_sets s)"
  shows "\<exists>ns. add_numbers_set nm s = Inr (s\<lparr>number_sets := ns\<rparr>) \<and> chain_ordered ns
     \<and> set ns = set (number_sets s) \<union> ({nm} \<inter> set NUMBER_SETS_LIST)"
proof (cases "nm \<in> set NUMBER_SETS_LIST \<and> nm \<notin> set (number_sets s)")
  case True
  let ?xs = "number_sets s"
  let ?r = "filter (\<lambda>x. chain_pos x < chain_pos nm) ?xs @ nm # filter (\<lambda>x. \<not> chain_pos x < chain_pos nm) ?xs"
  have "add_numbers_set_loop (length ?xs) nm (?xs @ nm # []) = Inr (?r @ [])"
    using loop_inserts[of nm ?xs "[]"] True assms by simp
  then have "add_numbers_set nm s = Inr (s\<lparr>number_sets := ?r\<rparr>)"
    using True by (simp add: add_numbers_set_def)
  moreover have "chain_ordered ?r" using chain_ordered_insert True assms by blast
  moreover have "set ?r = set ?xs \<union> ({nm} \<inter> set NUMBER_SETS_LIST)" using True by auto
  ultimately show ?thesis by blast
next
  case False
  then have "add_numbers_set nm s = Inr (s\<lparr>number_sets := number_sets s\<rparr>)"
    by (auto simp: add_numbers_set_def)
  moreover have "set (number_sets s) = set (number_sets s) \<union> ({nm} \<inter> set NUMBER_SETS_LIST)"
    using False by auto
  ultimately show ?thesis using assms by blast
qed

lemma add_numbers_sets_ordered:
  assumes "chain_ordered (number_sets s)"
  shows "\<exists>ns. add_numbers_sets nms s = Inr (s\<lparr>number_sets := ns\<rparr>) \<and> chain_ordered ns
     \<and> set ns = set (number_sets s) \<union> (set nms \<inter> set NUMBER_SETS_LIST)"
  using assms
proof (induction nms arbitrary: s)
  case Nil
  have "s = s\<lparr>number_sets := number_sets s\<rparr>" by simp
  then show ?case using Nil by (metis Int_empty_left Un_empty_right add_numbers_sets.simps(1) list.set(1))
next
  case (Cons nm nms)
  obtain ns where 1: "add_numbers_set nm s = Inr (s\<lparr>number_sets := ns\<rparr>)" "chain_ordered ns"
    "set ns = set (number_sets s) \<union> ({nm} \<inter> set NUMBER_SETS_LIST)"
    using add_numbers_set_ordered[OF Cons.prems] by blast
  let ?s1 = "s\<lparr>number_sets := ns\<rparr>"
  have "chain_ordered (number_sets ?s1)" using 1(2) by simp
  from Cons.IH[OF this] obtain ns' where 2: "add_numbers_sets nms ?s1 = Inr (?s1\<lparr>number_sets := ns'\<rparr>)"
    "chain_ordered ns'" "set ns' = set (number_sets ?s1) \<union> (set nms \<inter> set NUMBER_SETS_LIST)" by blast
  have "add_numbers_sets (nm # nms) s = Inr (s\<lparr>number_sets := ns'\<rparr>)" using 1(1) 2(1) by simp
  moreover have "set ns' = set (number_sets s) \<union> (set (nm # nms) \<inter> set NUMBER_SETS_LIST)"
    using 1(3) 2(3) by auto
  ultimately show ?case using 2(2) by blast
qed

lemma chain_pos_values:
  "map chain_pos NUMBER_SETS_LIST = [0, 1, 2, 3]"
  by (simp add: chain_pos_def NUMBER_SETS_LIST_def utf8_N_def utf8_Z_def utf8_Q_def utf8_R_def)

lemma chain_ordered_distinct: "chain_ordered ns \<Longrightarrow> distinct ns"
proof -
  assume "chain_ordered ns"
  then have "sorted_wrt (\<lambda>a b. chain_pos a < chain_pos b) ns" by (simp add: chain_ordered_def)
  then have "sorted_wrt (\<noteq>) ns" by (rule sorted_wrt_mono_rel[rotated]) auto
  then show ?thesis by (simp add: distinct_conv_nth sorted_wrt_iff_nth_less nat_neq_iff) (metis nat_neq_iff)
qed

lemma chain_ordered_subseq:
  assumes "chain_ordered ns"
  shows "subseq ns NUMBER_SETS_LIST"
proof -
  let ?f = "filter (\<lambda>x. x \<in> set ns) NUMBER_SETS_LIST"
  have a: "sorted_wrt (<) (map chain_pos ns)"
    using assms by (simp add: chain_ordered_def sorted_wrt_map)
  have "sorted_wrt (<) (map chain_pos NUMBER_SETS_LIST)" by (simp add: chain_pos_values)
  then have "sorted_wrt (\<lambda>a b. chain_pos a < chain_pos b) NUMBER_SETS_LIST" by (simp add: sorted_wrt_map)
  then have b: "sorted_wrt (<) (map chain_pos ?f)" by (simp add: sorted_wrt_map sorted_wrt_filter)
  have "set ?f = set ns" using assms by (auto simp: chain_ordered_def)
  then have "map chain_pos ns = map chain_pos ?f" using a b by (intro strict_sorted_equal) auto
  moreover have "inj_on chain_pos (set ns \<union> set ?f)"
    using assms chain_pos_inj by (auto simp: inj_on_def chain_ordered_def)
  ultimately have "ns = ?f" by (simp add: inj_on_map_eq_map)
  then show ?thesis by (metis subseq_filter_left)
qed

text \<open>
  Claim C9. Starting from a \<^verbatim>\<open>number_sets\<close> list that satisfies the invariant
  (the empty list of a new session does), any sequence of calls of
  \<^verbatim>\<open>add_numbers_set\<close> with arbitrary names returns without error and leaves a
  duplicate-free subsequence of the chain, sorted by position in the chain, that holds
  the old names and those of the new names that are in the chain. In particular the
  calls for \<open>\<real>\<close>, \<open>\<nat>\<close>, \<open>\<rat>\<close>, \<open>\<int>\<close> on the empty list give the whole chain
  in its order.
\<close>

theorem number_sets_ordered:
  assumes "chain_ordered (number_sets s)"
  shows "(\<exists>ns. add_numbers_sets nms s = Inr (s\<lparr>number_sets := ns\<rparr>)
           \<and> distinct ns \<and> subseq ns NUMBER_SETS_LIST
           \<and> sorted_wrt (\<lambda>a b. chain_pos a < chain_pos b) ns
           \<and> set ns = set (number_sets s) \<union> (set nms \<inter> set NUMBER_SETS_LIST))
       \<and> (number_sets s = [] \<longrightarrow>
            add_numbers_sets [utf8_R, utf8_N, utf8_Q, utf8_Z] s = Inr (s\<lparr>number_sets := [utf8_N, utf8_Z, utf8_Q, utf8_R]\<rparr>))"
proof
  obtain ns where "add_numbers_sets nms s = Inr (s\<lparr>number_sets := ns\<rparr>)" "chain_ordered ns"
     "set ns = set (number_sets s) \<union> (set nms \<inter> set NUMBER_SETS_LIST)"
    using add_numbers_sets_ordered[OF assms] by blast
  then show "\<exists>ns. add_numbers_sets nms s = Inr (s\<lparr>number_sets := ns\<rparr>)
           \<and> distinct ns \<and> subseq ns NUMBER_SETS_LIST
           \<and> sorted_wrt (\<lambda>a b. chain_pos a < chain_pos b) ns
           \<and> set ns = set (number_sets s) \<union> (set nms \<inter> set NUMBER_SETS_LIST)"
    using chain_ordered_distinct chain_ordered_subseq by (auto simp: chain_ordered_def)
next
  show "number_sets s = [] \<longrightarrow>
            add_numbers_sets [utf8_R, utf8_N, utf8_Q, utf8_Z] s = Inr (s\<lparr>number_sets := [utf8_N, utf8_Z, utf8_Q, utf8_R]\<rparr>)"
    by (simp add: add_numbers_set_def NUMBER_SETS_LIST_def utf8_N_def utf8_Z_def utf8_Q_def utf8_R_def)
qed

theorem number_sets_ordered_witness:
  "chain_ordered (number_sets initial_session) \<and>
   add_numbers_sets [utf8_R, utf8_N, utf8_Q, utf8_Z] initial_session
     = Inr (initial_session\<lparr>number_sets := [utf8_N, utf8_Z, utf8_Q, utf8_R]\<rparr>)"
proof -
  have h: "chain_ordered (number_sets initial_session)"
    by (simp add: chain_ordered_def initial_session_def)
  show ?thesis using h number_sets_ordered[OF h, of "[]"] by (simp add: initial_session_def)
qed

section \<open>Verification: \<^verbatim>\<open>descendant\<close>\<close>

text \<open>
  Claim C10. \<^verbatim>\<open>descendant\<close> treats an index that is out of range, at or beyond the
  length of the children list, in two ways. Given as the leading item of a tuple or list it
  makes the call return \<^verbatim>\<open>None\<close>, whatever follows it in the path. Given as a plain
  integer it is used unguarded to index the children list, and the call raises
  \<^verbatim>\<open>IndexError\<close>.
\<close>

theorem descendant_out_of_range:
  assumes "int (length (children (obj s t))) \<le> i"
  shows "descendant s t (Path (i # remaining)) = Inr None
       \<and> descendant s t (Index i) = Inl IndexError"
  using assms by (simp add: py_get_def)

theorem descendant_out_of_range_witness:
  "int (length (children (obj initial_session NO_MATH_TYPE))) \<le> 0
   \<and> descendant initial_session NO_MATH_TYPE (Path [0]) = Inr None
   \<and> descendant initial_session NO_MATH_TYPE (Index 0) = Inl IndexError"
proof -
  have h: "int (length (children (obj initial_session NO_MATH_TYPE))) \<le> 0"
    by (simp add: obj_def initial_session_def NO_MATH_TYPE_def plain_object_def)
  show ?thesis using h descendant_out_of_range[OF h, of "[]"] by simp
qed

section \<open>Verification: equality\<close>

lemma only_tags_reset_refl: "only_tags_reset s s"
  by (simp add: only_tags_reset_def)

lemma only_tags_reset_trans:
  assumes "only_tags_reset s t" "only_tags_reset t u"
  shows "only_tags_reset s u"
proof -
  have "dicts u ! d = dicts s ! d \<or> dicts u ! d = AList.update ''bound_var_nb'' (PInt (- 1)) (dicts s ! d)"
    if "d < length (dicts s)" for d
  proof -
    have 1: "dicts t ! d = dicts s ! d \<or> dicts t ! d = AList.update ''bound_var_nb'' (PInt (- 1)) (dicts s ! d)"
      using assms(1) that by (simp add: only_tags_reset_def)
    have 2: "dicts u ! d = dicts t ! d \<or> dicts u ! d = AList.update ''bound_var_nb'' (PInt (- 1)) (dicts t ! d)"
      using assms that by (simp add: only_tags_reset_def)
    from 1 2 show ?thesis by auto
  qed
  then show ?thesis using assms by (simp add: only_tags_reset_def)
qed

lemma nth_update_any: "j < length xs \<Longrightarrow> xs[i := x] ! j = (if i = j then x else xs ! j)"
  by (simp add: nth_list_update)

lemma unmark_after_mark:
  assumes r: "only_tags_reset (mark_identical_bound_vars s b1 b2) s3"
    and u1: "unmark_bound_var s3 b1 = Inr s4"
    and u2: "unmark_bound_var s4 b2 = Inr s5"
  shows "only_tags_reset s s5"
proof -
  let ?m = "mark_identical_bound_vars s b1 b2"
  let ?d1 = "info (objs s ! b1)" and ?d2 = "info (objs s ! b2)"
  let ?reset = "AList.update ''bound_var_nb'' (PInt (- 1))"
  have om: "objs ?m = objs s" and lm: "length (dicts ?m) = length (dicts s)"
    by (simp_all add: mark_identical_bound_vars_def set_info_def Let_def)
  have o3: "objs s3 = objs s" and l3: "length (dicts s3) = length (dicts s)"
    using r om lm by (simp_all add: only_tags_reset_def)
  have s4: "s4 = set_info s3 b1 ''bound_var_nb'' (PInt (- 1))"
    using u1 by (simp add: unmark_bound_var_def split: klass.splits)
  have s5: "s5 = set_info s4 b2 ''bound_var_nb'' (PInt (- 1))"
    using u2 by (simp add: unmark_bound_var_def split: klass.splits)
  have regs: "objs s5 = objs s" "Variables s5 = Variables s" "constants s5 = constants s"
    "number_sets s5 = number_sets s" "definition_patterns s5 = definition_patterns s"
    "length (dicts s5) = length (dicts s)"
    using r by (simp_all add: s4 s5 set_info_def only_tags_reset_def mark_identical_bound_vars_def Let_def)
  have "dicts s5 ! d = dicts s ! d \<or> dicts s5 ! d = ?reset (dicts s ! d)"
    if d: "d < length (dicts s)" for d
  proof -
    have m: "\<exists>c. dicts ?m ! d = (if d = ?d1 \<or> d = ?d2 then AList.update ''bound_var_nb'' (PInt c) (dicts s ! d) else dicts s ! d)"
      using d by (auto simp: mark_identical_bound_vars_def set_info_def Let_def obj_def info_dict_def nth_update_any)
    have 3: "dicts s3 ! d = dicts ?m ! d \<or> dicts s3 ! d = ?reset (dicts ?m ! d)"
      using r d lm by (simp add: only_tags_reset_def)
    have 5: "dicts s5 ! d = (if d = ?d1 \<or> d = ?d2 then ?reset (dicts s3 ! d) else dicts s3 ! d)"
      using d l3 o3 by (auto simp: s4 s5 set_info_def obj_def info_dict_def nth_update_any)
    from m 3 5 show ?thesis by (auto split: if_splits)
  qed
  then show ?thesis using regs by (simp add: only_tags_reset_def)
qed

lemma py_ne_frame:
  assumes "\<And>s a b r s'. meq s a b = Inr (r, s') \<Longrightarrow> only_tags_reset s s'"
    and "py_ne meq s a b = Inr (r, s')"
  shows "only_tags_reset s s'"
  using assms(2) assms(1)[of s a b]
  by (auto simp: py_ne_def only_tags_reset_refl split: if_splits sum.splits)

lemma compare_children_frame:
  assumes "\<And>s a b r s'. ne s a b = Inr (r, s') \<Longrightarrow> only_tags_reset s s'"
    and "compare_children ne s ps eq = Inr (r, s')"
  shows "only_tags_reset s s'"
  using assms(2)
proof (induction ps arbitrary: s eq)
  case Nil
  then show ?case by (simp add: only_tags_reset_refl)
next
  case (Cons p ps)
  obtain c0 c1 where p: "p = (c0, c1)" by (cases p)
  from Cons.prems p obtain d s1 where 1: "ne s c0 c1 = Inr (d, s1)"
    and 2: "compare_children ne s1 ps (if d then False else eq) = Inr (r, s')"
    by (auto split: sum.splits)
  show ?case using only_tags_reset_trans[OF assms(1)[OF 1] Cons.IH[OF 2]] .
qed

lemma MathObject_eq_frame:
  "MathObject_eq depth s a b = Inr (r, s') \<Longrightarrow> only_tags_reset s s'"
proof (induction depth arbitrary: s a b r s')
  case 0
  then show ?case by simp
next
  case (Suc depth)
  have ne: "only_tags_reset t t'" if "py_ne (MathObject_eq depth) t x y = Inr (q, t')" for t x y q t'
    using that Suc.IH by (rule py_ne_frame[rotated])
  have cc: "only_tags_reset t t'"
    if "compare_children (py_ne (MathObject_eq depth)) t ps e = Inr (q, t')" for t ps e q t'
    using that ne by (rule compare_children_frame[rotated])
  show ?case
  proof (cases "a = b \<or> is_no_math_type a \<or> is_no_math_type b")
    case True
    from True Suc.prems show ?thesis by (cases "a = b") (auto simp: only_tags_reset_refl)
  next
    case False
    from False Suc.prems obtain n1 n2 where n: "name s a = Inr n1" "name s b = Inr n2"
      by (auto split: sum.splits)
    show ?thesis
    proof (cases "(node (obj s a), is_bound_var s a, n1, value_attr s a)
            \<noteq> (node (obj s b), is_bound_var s b, n2, value_attr s b)")
      case True
      from False n True Suc.prems show ?thesis by (auto simp: only_tags_reset_refl)
    next
      case same: False
      from False n same Suc.prems obtain d s1 where
        mt: "py_ne (MathObject_eq depth) s (math_type s a) (math_type s b) = Inr (d, s1)"
        by (auto split: sum.splits)
      have f1: "only_tags_reset s s1" using ne[OF mt] .
      show ?thesis
      proof (cases "d \<or> length (children (obj s1 a)) \<noteq> length (children (obj s1 b))")
        case True
        from False n same mt f1 True Suc.prems show ?thesis by (cases d) auto
      next
        case go: False
        let ?b1 = "children (obj s1 a) ! 1" and ?b2 = "children (obj s1 b) ! 1"
        show ?thesis
        proof (cases "has_bound_var s1 a")
          case True
          let ?s2 = "mark_identical_bound_vars s1 ?b1 ?b2"
          from False n same mt go True Suc.prems obtain eq s3 s4 where
            c: "compare_children (py_ne (MathObject_eq depth)) ?s2
                  (zip (children (obj ?s2 a)) (children (obj ?s2 b))) True = Inr (eq, s3)"
            and u1: "unmark_bound_var s3 ?b1 = Inr s4"
            and u2: "unmark_bound_var s4 ?b2 = Inr s'"
            by (auto simp: Let_def split: sum.splits)
          have "only_tags_reset s1 s'" using unmark_after_mark[OF cc[OF c] u1 u2] .
          with f1 show ?thesis by (rule only_tags_reset_trans)
        next
          case no: False
          from False n same mt go no Suc.prems obtain eq where
            c: "compare_children (py_ne (MathObject_eq depth)) s1
                  (zip (children (obj s1 a)) (children (obj s1 b))) True = Inr (eq, s')"
            by (auto simp: Let_def split: sum.splits)
          from f1 cc[OF c] show ?thesis by (rule only_tags_reset_trans)
        qed
      qed
    qed
  qed
qed

text \<open>
  Claim C1 (as stated). After the comparison of \<open>\<forall>x : X, P\<close> with \<open>\<forall>y : X, P\<close>,
  which succeeds, the match tags of \<open>x\<close> and \<open>y\<close> are \<open>-1\<close>, not 0.
\<close>

theorem tags_after_equality_counterexample:
  "MathObject_eq 2 binder_session 7 9 = Inr (True, binder_session\<lparr>bound_var_counter := 1\<rparr>)
   \<and> bound_var_nb (binder_session\<lparr>bound_var_counter := 1\<rparr>) 5 = Some (PInt (- 1))
   \<and> bound_var_nb (binder_session\<lparr>bound_var_counter := 1\<rparr>) 8 = Some (PInt (- 1))
   \<and> bound_var_nb (binder_session\<lparr>bound_var_counter := 1\<rparr>) 5 \<noteq> Some (PInt 0)"
  by code_simp

text \<open>
  Claim C1 (amended). \<^verbatim>\<open>MathObject.__eq__\<close> returns \<^verbatim>\<open>True\<close> on an object and
  itself and leaves the session as it was. Whenever a call returns, with \<^verbatim>\<open>True\<close>
  or with \<^verbatim>\<open>False\<close>, no match tag written during the call is left: every
  \<^verbatim>\<open>info\<close> dictionary is as before the call or has \<^verbatim>\<open>'bound_var_nb'\<close> at its
  default \<open>-1\<close>, and nothing else but the counter of tags has changed.
\<close>

theorem equality_reflexive_and_resets_tags:
  "MathObject_eq (Suc depth) s a a = Inr (True, s)
   \<and> (MathObject_eq depth s a b = Inr (r, s') \<longrightarrow> only_tags_reset s s')"
  using MathObject_eq_frame by simp

theorem equality_reflexive_and_resets_tags_witness:
  "MathObject_eq 2 binder_session 7 9 = Inr (True, binder_session\<lparr>bound_var_counter := 1\<rparr>)
   \<and> only_tags_reset binder_session (binder_session\<lparr>bound_var_counter := 1\<rparr>)"
proof -
  have h: "MathObject_eq 2 binder_session 7 9 = Inr (True, binder_session\<lparr>bound_var_counter := 1\<rparr>)"
    by code_simp
  show ?thesis
    using h equality_reflexive_and_resets_tags[of 2 binder_session 7 9 True "binder_session\<lparr>bound_var_counter := 1\<rparr>"]
    by simp
qed

text \<open>
  Claim C2. When \<^verbatim>\<open>MathObject.__eq__\<close> is called on two distinct objects one of
  which is the sentinel \<^verbatim>\<open>NO_MATH_TYPE\<close>, it returns \<^verbatim>\<open>True\<close>.
\<close>

theorem sentinel_equals_everything:
  assumes "a \<noteq> b" and "is_no_math_type a \<or> is_no_math_type b"
  shows "MathObject_eq (Suc depth) s a b = Inr (True, s)"
  using assms by simp

theorem sentinel_equals_everything_witness:
  "(7::ref) \<noteq> NO_MATH_TYPE \<and> (is_no_math_type 7 \<or> is_no_math_type NO_MATH_TYPE)
   \<and> MathObject_eq 1 binder_session 7 NO_MATH_TYPE = Inr (True, binder_session)"
proof -
  have h1: "(7::ref) \<noteq> NO_MATH_TYPE" by (simp add: NO_MATH_TYPE_def)
  have h2: "is_no_math_type 7 \<or> is_no_math_type NO_MATH_TYPE" by (simp add: is_no_math_type_def)
  show ?thesis using h1 h2 sentinel_equals_everything[OF h1 h2, of 0 binder_session] by simp
qed

text \<open>
  Claim C4 (as stated). \<open>x\<close> carries the tag 1, \<open>y\<close> the default tag, so not both
  carry a non-default tag; their names are equal; yet \<^verbatim>\<open>BoundVar.__eq__\<close> called on
  \<open>x\<close> returns \<^verbatim>\<open>False\<close>.
\<close>

theorem BoundVar_eq_counterexample:
  "(5::ref) \<noteq> 8
   \<and> \<not> (bound_var_nb tagged_session 5 \<noteq> Some (PInt (- 1))
        \<and> bound_var_nb tagged_session 8 \<noteq> Some (PInt (- 1)))
   \<and> name tagged_session 5 = name tagged_session 8
   \<and> BoundVar_eq tagged_session 5 8 = Inr False"
  by code_simp

text \<open>
  Claim C4 (amended). \<^verbatim>\<open>BoundVar.__eq__\<close> returns \<^verbatim>\<open>True\<close> on a bound variable
  and itself. Otherwise, against another bound variable: if the receiver carries a
  non-default match tag, the result is whether the two tags are equal; if the receiver
  carries the default tag, the result is whether the two names are equal. Against an
  object that is not a bound variable the result is \<^verbatim>\<open>False\<close>.
\<close>

theorem BoundVar_eq_cases:
  "BoundVar_eq s v v = Inr True
   \<and> (v \<noteq> w \<and> is_bound_var s w \<and> bound_var_nb s v \<noteq> Some (PInt (- 1)) \<longrightarrow>
        BoundVar_eq s v w = Inr (bound_var_nb s v = bound_var_nb s w))
   \<and> (v \<noteq> w \<and> is_bound_var s w \<and> bound_var_nb s v = Some (PInt (- 1))
        \<and> name s v = Inr n1 \<and> name s w = Inr n2 \<longrightarrow>
        BoundVar_eq s v w = Inr (n1 = n2))
   \<and> (v \<noteq> w \<and> \<not> is_bound_var s w \<longrightarrow> BoundVar_eq s v w = Inr False)"
  by (simp add: BoundVar_eq_def is_bound_var_def)

theorem BoundVar_eq_cases_witness:
  "BoundVar_eq tagged_session 5 8 = Inr False
   \<and> BoundVar_eq tagged_session 8 5 = Inr True
   \<and> BoundVar_eq tagged_session 5 4 = Inr False"
proof -
  have t: "is_bound_var tagged_session 8" "bound_var_nb tagged_session 5 = Some (PInt 1)"
    "bound_var_nb tagged_session 8 = Some (PInt (- 1))" "is_bound_var tagged_session 5"
    "\<not> is_bound_var tagged_session 4"
    "name tagged_session 8 = Inr (Some (PStr ''NO NAME''))"
    "name tagged_session 5 = Inr (Some (PStr ''NO NAME''))"
    by code_simp+
  show ?thesis
    using t BoundVar_eq_cases[of tagged_session 5 8]
      BoundVar_eq_cases[of tagged_session 8 5 "Some (PStr ''NO NAME'')" "Some (PStr ''NO NAME'')"]
      BoundVar_eq_cases[of tagged_session 5 4]
    by simp
qed

end
